theory Spec2Isabelle
  imports Main "HOL-Library.AList" "HOL-Library.Word"
begin

section \<open>The chat relay of server.js and the send path of App.jsx\<close>

text \<open>
  The server keeps three module-level stores (\<^verbatim>\<open>users\<close>, \<^verbatim>\<open>messages\<close>,
  \<^verbatim>\<open>typingUsers\<close>) and registers seven socket handlers. Each handler is a function
  from the stores to the new stores and the list of emissions it makes, in the order the
  code makes them. An emission is recorded with the audience the code names
  (\<^verbatim>\<open>io.to(room)\<close>, \<^verbatim>\<open>socket.to(to)\<close>, \<^verbatim>\<open>socket.emit\<close>); which sockets
  the transport has in a room is socket.io's own table and is not part of these stores.
\<close>

subsection \<open>Strings\<close>

text \<open>
  A JavaScript string is a sequence of 16-bit code units. The empty string is the only
  falsy one. \<open>js\<close> writes an ASCII literal.
\<close>

type_synonym jsstring = "16 word list"

definition js :: "string \<Rightarrow> jsstring" where
  "js = map (\<lambda>c. of_nat (of_char c))"

text \<open>\<^verbatim>\<open>x || ''\<close> for a field that is a string or undefined.\<close>

fun or_empty :: "jsstring option \<Rightarrow> jsstring" where
  "or_empty None = []"
| "or_empty (Some t) = t"

subsection \<open>Data\<close>

text \<open>\<^verbatim>\<open>{ username, room, id: socket.id }\<close>\<close>

record user =
  u_username :: jsstring
  u_room :: jsstring
  u_id :: jsstring

text \<open>
  A value held under a key of \<^verbatim>\<open>msg.reactions\<close>: a number, or a non-empty string
  (what \<^verbatim>\<open>+ 1\<close> yields when its left operand is not a number; the text itself is not
  kept).
\<close>

datatype rvalue = Num nat | Text

text \<open>The message object built by the \<^verbatim>\<open>send_message\<close> handler.\<close>

record msg =
  m_id :: int
  m_sender :: jsstring
  m_senderId :: jsstring
  m_room :: jsstring
  m_timestamp :: jsstring
  m_text :: jsstring
  m_image :: jsstring
  m_reactions :: "jsstring \<rightharpoonup> rvalue"
  m_seenBy :: "jsstring list"

text \<open>
  The object built by the \<^verbatim>\<open>private_message\<close> handler; \<^verbatim>\<open>message\<close> and
  \<^verbatim>\<open>image\<close> are passed on as received, so they may be undefined.
\<close>

record pmsg =
  p_id :: int
  p_sender :: jsstring
  p_senderId :: jsstring
  p_message :: "jsstring option"
  p_image :: "jsstring option"
  p_isPrivate :: bool
  p_timestamp :: jsstring

text \<open>
  The payload object of \<^verbatim>\<open>send_message\<close> and \<^verbatim>\<open>private_message\<close>: the fields
  either handler or the client names, each present or undefined.
\<close>

record payload =
  d_text :: "jsstring option"
  d_message :: "jsstring option"
  d_image :: "jsstring option"
  d_to :: "jsstring option"

text \<open>
  The two clock readings a handler takes: \<^verbatim>\<open>Date.now()\<close> and
  \<^verbatim>\<open>new Date().toISOString()\<close>.
\<close>

record clock =
  now :: int
  iso :: jsstring

text \<open>
  The stores. \<^verbatim>\<open>users\<close> and \<^verbatim>\<open>typingUsers\<close> are objects keyed by socket id,
  enumerated in insertion order: an association list in which assignment replaces in
  place or appends, and \<^verbatim>\<open>delete\<close> removes.
\<close>

record state =
  users :: "(jsstring \<times> user) list"
  messages :: "msg list"
  typingUsers :: "(jsstring \<times> jsstring) list"

definition init :: state where
  "init = \<lparr>users = [], messages = [], typingUsers = []\<rparr>"

text \<open>The events a socket can deliver to the server, with their arguments.\<close>

datatype event =
    On_user_join jsstring jsstring
  | On_send_message payload
  | On_private_message payload
  | On_typing bool
  | On_message_reaction int jsstring
  | On_disconnect
  | On_message_seen int

text \<open>What the server emits.\<close>

datatype emitted =
    Emit_user_list "user list"
  | Emit_user_joined jsstring jsstring
  | Emit_user_left jsstring
  | Emit_receive_message msg
  | Emit_typing_users "jsstring list"
  | Emit_message_seen_update int "jsstring list"
  | Emit_private_message pmsg

text \<open>
  \<open>Room r\<close> is \<^verbatim>\<open>io.to(r)\<close>; \<open>Others_in t c\<close> is \<^verbatim>\<open>socket.to(t)\<close> on socket
  \<open>c\<close> (the room \<open>t\<close> without \<open>c\<close> itself); \<open>Socket c\<close> is \<^verbatim>\<open>socket.emit\<close>
  on socket \<open>c\<close>.
\<close>

datatype audience =
    Room jsstring
  | Others_in "jsstring option" jsstring
  | Socket jsstring

type_synonym emission = "audience \<times> emitted"

subsection \<open>Handlers\<close>

text \<open>\<^verbatim>\<open>Object.values(users).filter(u => u.room === room)\<close>\<close>

definition roomUsers :: "state \<Rightarrow> jsstring \<Rightarrow> user list" where
  "roomUsers s r = filter (\<lambda>u. u_room u = r) (map snd (users s))"

definition user_join :: "state \<Rightarrow> jsstring \<Rightarrow> jsstring \<Rightarrow> jsstring \<Rightarrow> state \<times> emission list" where
  "user_join s sid username room =
     (let s' = s\<lparr>users := AList.update sid
                  \<lparr>u_username = username, u_room = room, u_id = sid\<rparr> (users s)\<rparr>
      in (s', [(Room room, Emit_user_list (roomUsers s' room)),
               (Room room, Emit_user_joined username sid)]))"

text \<open>\<^verbatim>\<open>messages.push(msg); if (messages.length > 200) messages.shift();\<close>\<close>

definition push_capped :: "msg list \<Rightarrow> msg \<Rightarrow> msg list" where
  "push_capped ms m =
     (let pushed = ms @ [m] in if length pushed > 200 then tl pushed else pushed)"

definition send_message :: "state \<Rightarrow> jsstring \<Rightarrow> clock \<Rightarrow> payload \<Rightarrow> state \<times> emission list" where
  "send_message s sid clk data =
     (case map_of (users s) sid of
        None \<Rightarrow> (s, [])
      | Some user \<Rightarrow>
          (let m = \<lparr>m_id = now clk,
                    m_sender = u_username user,
                    m_senderId = sid,
                    m_room = u_room user,
                    m_timestamp = iso clk,
                    m_text = or_empty (d_text data),
                    m_image = or_empty (d_image data),
                    m_reactions = Map.empty,
                    m_seenBy = [u_username user]\<rparr>
           in (s\<lparr>messages := push_capped (messages s) m\<rparr>,
               [(Room (u_room user), Emit_receive_message m)])))"

text \<open>\<^verbatim>\<open>sender?.username || 'Anonymous'\<close>\<close>

definition sender_name :: "user option \<Rightarrow> jsstring" where
  "sender_name sender =
     (case sender of
        None \<Rightarrow> js ''Anonymous''
      | Some u \<Rightarrow> if u_username u = [] then js ''Anonymous'' else u_username u)"

definition private_message :: "state \<Rightarrow> jsstring \<Rightarrow> clock \<Rightarrow> payload \<Rightarrow> state \<times> emission list" where
  "private_message s sid clk data =
     (let sender = map_of (users s) sid;
          m = \<lparr>p_id = now clk,
               p_sender = sender_name sender,
               p_senderId = sid,
               p_message = d_message data,
               p_image = d_image data,
               p_isPrivate = True,
               p_timestamp = iso clk\<rparr>
      in (s, [(Others_in (d_to data) sid, Emit_private_message m),
              (Socket sid, Emit_private_message m)]))"

text \<open>
  \<^verbatim>\<open>Object.entries(typingUsers).filter(([id]) => users[id]?.room === user.room)
  .map(([_, name]) => name)\<close>
\<close>

definition roomTyping :: "(jsstring \<times> user) list \<Rightarrow> (jsstring \<times> jsstring) list \<Rightarrow> jsstring \<Rightarrow> jsstring list" where
  "roomTyping us ts r =
     map snd (filter (\<lambda>(i, _). case map_of us i of None \<Rightarrow> False | Some u \<Rightarrow> u_room u = r) ts)"

definition typing :: "state \<Rightarrow> jsstring \<Rightarrow> bool \<Rightarrow> state \<times> emission list" where
  "typing s sid isTyping =
     (case map_of (users s) sid of
        None \<Rightarrow> (s, [])
      | Some user \<Rightarrow>
          (let ts = (if isTyping then AList.update sid (u_username user) (typingUsers s)
                     else AList.delete sid (typingUsers s))
           in (s\<lparr>typingUsers := ts\<rparr>,
               [(Room (u_room user), Emit_typing_users (roomTyping (users s) ts (u_room user)))])))"

text \<open>\<^verbatim>\<open>messages.find((m) => m.id === messageId)\<close>: the first stored message with that id.\<close>

definition find_msg :: "int \<Rightarrow> msg list \<Rightarrow> msg option" where
  "find_msg messageId ms = List.find (\<lambda>m. m_id m = messageId) ms"

text \<open>
  The handlers mutate the object that \<^verbatim>\<open>find\<close> returned, which is the stored one:
  the first message with the id is replaced, the others stay.
\<close>

fun mutate_found :: "int \<Rightarrow> (msg \<Rightarrow> msg) \<Rightarrow> msg list \<Rightarrow> msg list" where
  "mutate_found messageId f [] = []"
| "mutate_found messageId f (m # ms) =
     (if m_id m = messageId then f m # ms else m # mutate_found messageId f ms)"

text \<open>
  \<^verbatim>\<open>reactions\<close> is created as \<^verbatim>\<open>{}\<close>, so reading a key that is not an own property
  falls through to \<^verbatim>\<open>Object.prototype\<close>. These are the names found there.
\<close>

definition object_prototype_names :: "jsstring list" where
  "object_prototype_names = map js
     [''constructor'', ''__defineGetter__'', ''__defineSetter__'', ''hasOwnProperty'',
      ''__lookupGetter__'', ''__lookupSetter__'', ''isPrototypeOf'', ''propertyIsEnumerable'',
      ''toString'', ''valueOf'', ''__proto__'', ''toLocaleString'']"

text \<open>
  \<^verbatim>\<open>(msg.reactions[emoji] || 0) + 1\<close>: an own number counts up (0 is falsy and gives
  1 as well); an own string, or an inherited function or object, is truthy and \<^verbatim>\<open>+ 1\<close>
  appends to its text; a key found nowhere gives 1.
\<close>

definition next_reaction :: "(jsstring \<rightharpoonup> rvalue) \<Rightarrow> jsstring \<Rightarrow> rvalue" where
  "next_reaction r emoji =
     (case r emoji of
        Some (Num n) \<Rightarrow> Num (n + 1)
      | Some Text \<Rightarrow> Text
      | None \<Rightarrow> if emoji \<in> set object_prototype_names then Text else Num 1)"

text \<open>
  \<^verbatim>\<open>msg.reactions[emoji] = v\<close>: the inherited setter of \<^verbatim>\<open>__proto__\<close> ignores a
  value that is neither an object nor null; any other key becomes an own property.
\<close>

definition set_reaction :: "(jsstring \<rightharpoonup> rvalue) \<Rightarrow> jsstring \<Rightarrow> rvalue \<Rightarrow> (jsstring \<rightharpoonup> rvalue)" where
  "set_reaction r emoji v = (if emoji = js ''__proto__'' then r else r(emoji \<mapsto> v))"

definition react :: "jsstring \<Rightarrow> msg \<Rightarrow> msg" where
  "react emoji m =
     m\<lparr>m_reactions := set_reaction (m_reactions m) emoji (next_reaction (m_reactions m) emoji)\<rparr>"

definition message_reaction :: "state \<Rightarrow> int \<Rightarrow> jsstring \<Rightarrow> state \<times> emission list" where
  "message_reaction s messageId emoji =
     (case find_msg messageId (messages s) of
        None \<Rightarrow> (s, [])
      | Some m \<Rightarrow>
          (s\<lparr>messages := mutate_found messageId (react emoji) (messages s)\<rparr>,
           [(Room (m_room m), Emit_receive_message (react emoji m))]))"

definition disconnect :: "state \<Rightarrow> jsstring \<Rightarrow> state \<times> emission list" where
  "disconnect s sid =
     (case map_of (users s) sid of
        None \<Rightarrow> (s, [])
      | Some user \<Rightarrow>
          (let s' = s\<lparr>users := AList.delete sid (users s),
                      typingUsers := AList.delete sid (typingUsers s)\<rparr>
           in (s', [(Room (u_room user), Emit_user_list (roomUsers s' (u_room user))),
                    (Room (u_room user), Emit_user_left (u_username user))])))"

text \<open>\<^verbatim>\<open>msg.seenBy.push(user.username)\<close>\<close>

definition see :: "jsstring \<Rightarrow> msg \<Rightarrow> msg" where
  "see name m = m\<lparr>m_seenBy := m_seenBy m @ [name]\<rparr>"

definition message_seen :: "state \<Rightarrow> jsstring \<Rightarrow> int \<Rightarrow> state \<times> emission list" where
  "message_seen s sid messageId =
     (case map_of (users s) sid of
        None \<Rightarrow> (s, [])
      | Some user \<Rightarrow>
          (case find_msg messageId (messages s) of
             None \<Rightarrow> (s, [])
           | Some m \<Rightarrow>
               if u_username user \<notin> set (m_seenBy m)
               then (s\<lparr>messages := mutate_found messageId (see (u_username user)) (messages s)\<rparr>,
                     [(Room (m_room m),
                       Emit_message_seen_update messageId (m_seenBy (see (u_username user) m)))])
               else (s, [])))"

subsection \<open>The engine\<close>

text \<open>
  One inbound event: the socket it arrives on, the clock readings its handler would take,
  and the event. \<open>step\<close> dispatches as \<^verbatim>\<open>socket.on\<close> does; \<open>run\<close> processes events
  one after the other and collects the emissions.
\<close>

type_synonym inbound = "jsstring \<times> clock \<times> event"

fun step :: "state \<Rightarrow> inbound \<Rightarrow> state \<times> emission list" where
  "step s (sid, clk, On_user_join username room) = user_join s sid username room"
| "step s (sid, clk, On_send_message data) = send_message s sid clk data"
| "step s (sid, clk, On_private_message data) = private_message s sid clk data"
| "step s (sid, clk, On_typing isTyping) = typing s sid isTyping"
| "step s (sid, clk, On_message_reaction messageId emoji) = message_reaction s messageId emoji"
| "step s (sid, clk, On_disconnect) = disconnect s sid"
| "step s (sid, clk, On_message_seen messageId) = message_seen s sid messageId"

fun run :: "state \<Rightarrow> inbound list \<Rightarrow> state \<times> emission list" where
  "run s [] = (s, [])"
| "run s (i # is) =
     (case step s i of (s', out) \<Rightarrow> (case run s' is of (s'', out') \<Rightarrow> (s'', out @ out')))"

subsection \<open>The client's send path\<close>

text \<open>
  \<^verbatim>\<open>String.prototype.trim\<close> strips the WhiteSpace and LineTerminator code points from
  both ends; all of them are single code units.
\<close>

definition white_space :: "16 word \<Rightarrow> bool" where
  "white_space c =
     (c \<in> {0x9, 0xA, 0xB, 0xC, 0xD, 0x20, 0xA0, 0x1680, 0x2028, 0x2029, 0x202F, 0x205F,
           0x3000, 0xFEFF}
      \<or> (0x2000 \<le> c \<and> c \<le> 0x200A))"

definition trim :: "jsstring \<Rightarrow> jsstring" where
  "trim t = rev (dropWhile white_space (rev (dropWhile white_space t)))"

text \<open>
  The part of the component state \<^verbatim>\<open>handleSend\<close> reads: the input box, the chosen file
  (by name, or none) and the user picked for a private chat.
\<close>

record client =
  c_input :: jsstring
  c_file :: "jsstring option"
  c_selectedUser :: "user option"

text \<open>
  How the upload ends when a file is chosen: the request or its JSON parsing throws, or
  the answer's \<^verbatim>\<open>url\<close> field (which may be undefined) is taken.
\<close>

datatype upload = Upload_throws | Upload_answers "jsstring option"

definition imageUrl :: "client \<Rightarrow> upload \<Rightarrow> jsstring option" where
  "imageUrl c up =
     (case c_file c of
        None \<Rightarrow> Some []
      | Some f \<Rightarrow> (case up of Upload_throws \<Rightarrow> Some [] | Upload_answers url \<Rightarrow> url))"

definition messagePayload :: "client \<Rightarrow> upload \<Rightarrow> payload" where
  "messagePayload c up =
     \<lparr>d_text = Some (c_input c), d_message = None, d_image = imageUrl c up, d_to = None\<rparr>"

text \<open>\<open>handleSend\<close> returns the new component state and the events the socket emits.\<close>

definition handleSend :: "client \<Rightarrow> upload \<Rightarrow> client \<times> event list" where
  "handleSend c up =
     (if trim (c_input c) = [] \<and> c_file c = None then (c, [])
      else
        (c\<lparr>c_input := [], c_file := None\<rparr>,
         [case c_selectedUser c of
            Some u \<Rightarrow> On_private_message ((messagePayload c up)\<lparr>d_to := Some (u_id u)\<rparr>)
          | None \<Rightarrow> On_send_message (messagePayload c up),
          On_typing False]))"

section \<open>Notions used in the statements\<close>

text \<open>The last 200 entries of a list of messages.\<close>

definition last200 :: "msg list \<Rightarrow> msg list" where
  "last200 ms = drop (length ms - 200) ms"

text \<open>The message object that a send by participant \<open>u\<close> on socket \<open>sid\<close> creates.\<close>

definition sent :: "user \<Rightarrow> jsstring \<Rightarrow> clock \<Rightarrow> payload \<Rightarrow> msg" where
  "sent u sid clk d =
     \<lparr>m_id = now clk, m_sender = u_username u, m_senderId = sid, m_room = u_room u,
      m_timestamp = iso clk, m_text = or_empty (d_text d), m_image = or_empty (d_image d),
      m_reactions = Map.empty, m_seenBy = [u_username u]\<rparr>"

text \<open>
  The registry is a well-formed object: no key twice, and every entry carries its own key
  as \<^verbatim>\<open>id\<close>.
\<close>

definition registry_ok :: "state \<Rightarrow> bool" where
  "registry_ok s \<longleftrightarrow> distinct (map fst (users s)) \<and> (\<forall>(k, u) \<in> set (users s). u_id u = k)"

text \<open>
  \<open>seen_grows m m'\<close>: \<open>m'\<close> is the message \<open>m\<close> at a later time as far as its id and
  its seen-by list go; the list has only grown at its end.
\<close>

definition seen_grows :: "msg \<Rightarrow> msg \<Rightarrow> bool" where
  "seen_grows m m' \<longleftrightarrow>
     m_id m' = m_id m \<and> take (length (m_seenBy m)) (m_seenBy m') = m_seenBy m"


text \<open>
  Under every key that is not a property name of \<^verbatim>\<open>Object.prototype\<close>, the
  reactions of the stored messages hold numbers.
\<close>

definition counts_ok :: "state \<Rightarrow> bool" where
  "counts_ok s \<longleftrightarrow>
     list_all (\<lambda>m. \<forall>e. e \<notin> set object_prototype_names \<longrightarrow> m_reactions m e \<noteq> Some Text)
       (messages s)"

text \<open>
  The value under an emoji on the message that lookup by id returns (nothing when no
  message has the id), and the count it stands for.
\<close>

definition reaction_on :: "msg list \<Rightarrow> int \<Rightarrow> jsstring \<Rightarrow> rvalue option" where
  "reaction_on ms i e = (case find_msg i ms of None \<Rightarrow> None | Some m \<Rightarrow> m_reactions m e)"

fun count_of :: "rvalue option \<Rightarrow> nat" where
  "count_of (Some (Num n)) = n"
| "count_of _ = 0"

text \<open>The id and emoji of a reaction event; how many events of a run react with them.\<close>

fun reaction_of :: "inbound \<Rightarrow> (int \<times> jsstring) option" where
  "reaction_of (sid, clk, On_message_reaction i e) = Some (i, e)"
| "reaction_of _ = None"

definition reactions_with :: "int \<Rightarrow> jsstring \<Rightarrow> inbound list \<Rightarrow> nat" where
  "reactions_with i e evs = length (filter (\<lambda>x. reaction_of x = Some (i, e)) evs)"

text \<open>What one more reaction with an emoji makes of the value under it.\<close>

definition reacted :: "jsstring \<Rightarrow> rvalue option \<Rightarrow> rvalue option" where
  "reacted e v =
     (if e = js ''__proto__'' then v
      else Some (case v of
                   Some (Num n) \<Rightarrow> Num (n + 1)
                 | Some Text \<Rightarrow> Text
                 | None \<Rightarrow> if e \<in> set object_prototype_names then Text else Num 1))"

section \<open>Sample inputs\<close>

text \<open>
  Clock readings \<open>k\<close> milliseconds after noon of 1 July 2025 (for \<open>k\<close> below 1000).
\<close>

definition stamp :: "nat \<Rightarrow> jsstring" where
  "stamp k = js ''2025-07-01T12:00:00.''
     @ map (\<lambda>d. of_nat (48 + d)) [k div 100 mod 10, k div 10 mod 10, k mod 10] @ js ''Z''"

definition tick :: "nat \<Rightarrow> clock" where
  "tick k = \<lparr>now = 1751371200000 + int k, iso = stamp k\<rparr>"

text \<open>The thumbs-up emoji (U+1F44D, a surrogate pair) and two payloads.\<close>

definition thumbs_up :: jsstring where
  "thumbs_up = [0xD83D, 0xDC4D]"

definition text_only :: "string \<Rightarrow> payload" where
  "text_only t = \<lparr>d_text = Some (js t), d_message = None, d_image = Some [], d_to = None\<rparr>"

definition nothing :: payload where
  "nothing = \<lparr>d_text = None, d_message = None, d_image = None, d_to = None\<rparr>"

text \<open>Alice on socket c1 and bob on socket c2 join the room General.\<close>

definition alice_joins :: inbound where
  "alice_joins = (js ''c1'', tick 0, On_user_join (js ''alice'') (js ''General''))"

definition bob_joins :: inbound where
  "bob_joins = (js ''c2'', tick 0, On_user_join (js ''bob'') (js ''General''))"

definition alice_bob :: state where
  "alice_bob = fst (run init [alice_joins, bob_joins])"

text \<open>A full log: 200 messages by alice in General, one per millisecond.\<close>

definition hundreds :: "msg list" where
  "hundreds = map (\<lambda>k. \<lparr>m_id = now (tick k), m_sender = js ''alice'', m_senderId = js ''c1'',
       m_room = js ''General'', m_timestamp = iso (tick k), m_text = js ''hi'', m_image = [],
       m_reactions = Map.empty, m_seenBy = [js ''alice'']\<rparr>) [0..<200]"

text \<open>
  201 sends by alice on socket c1, the first two handled at the same reading of the
  clock, the others one millisecond apart.
\<close>

definition sends201 :: "inbound list" where
  "sends201 = map (\<lambda>k. (js ''c1'', tick k, On_send_message (text_only ''hi''))) (0 # [0..<200])"

section \<open>Basic facts\<close>

lemma small_word_inj:
  fixes m n :: nat
  assumes "m < 256" and "n < 256" and "(of_nat m :: 16 word) = of_nat n"
  shows "m = n"
proof -
  have m: "m < 2 ^ LENGTH(16)" and n: "n < 2 ^ LENGTH(16)"
    using assms(1,2) by simp_all
  have "take_bit LENGTH(16) m = take_bit LENGTH(16) n"
    using assms(3) by (simp only: word_of_nat_eq_iff)
  then show ?thesis
    using m n by (simp only: take_bit_nat_eq_self)
qed

lemma of_char_below_256: "(of_char c :: nat) < 256"
proof -
  have "(of_char c :: nat) \<in> {0..<256}"
    using range_nat_of_char by blast
  then show ?thesis by (simp only: atLeastLessThan_iff)
qed

lemma js_eq_iff [simp]: "js a = js b \<longleftrightarrow> a = b"
proof -
  have inj1: "inj (\<lambda>c::char. (of_nat (of_char c) :: 16 word))"
  proof (rule injI)
    fix a b :: char
    assume "(of_nat (of_char a) :: 16 word) = of_nat (of_char b)"
    then have "(of_char a :: nat) = of_char b"
      by (rule small_word_inj [OF of_char_below_256 of_char_below_256])
    then show "a = b" by (simp only: of_char_eq_iff)
  qed
  show ?thesis unfolding js_def using inj_map_eq_map [OF inj1] by blast
qed

lemma js_Nil_iff [simp]: "js a = [] \<longleftrightarrow> a = []"
  by (simp add: js_def)

lemma Nil_js_iff [simp]: "[] = js a \<longleftrightarrow> a = []"
  by (auto simp: js_def)

subsection \<open>Lookup and in-place mutation\<close>

lemma find_msg_Nil [simp]: "find_msg i [] = None"
  by (simp add: find_msg_def)

lemma find_msg_Cons [simp]:
  "find_msg i (m # ms) = (if m_id m = i then Some m else find_msg i ms)"
  by (simp add: find_msg_def)

lemma find_msg_None_iff: "find_msg i ms = None \<longleftrightarrow> i \<notin> m_id ` set ms"
  by (induction ms) auto

lemma find_msg_Some_id: "find_msg i ms = Some m \<Longrightarrow> m_id m = i \<and> m \<in> set ms"
  by (induction ms) (auto split: if_splits)

lemma mutate_found_absent: "find_msg i ms = None \<Longrightarrow> mutate_found i f ms = ms"
  by (induction ms) (auto split: if_splits)

lemma length_mutate_found [simp]: "length (mutate_found i f ms) = length ms"
  by (induction ms) auto

lemma find_mutate_found_same:
  "(\<And>m. m_id (f m) = m_id m) \<Longrightarrow>
   find_msg i (mutate_found i f ms) = map_option f (find_msg i ms)"
  by (induction ms) auto

lemma find_mutate_found_other:
  "(\<And>m. m_id (f m) = m_id m) \<Longrightarrow> j \<noteq> i \<Longrightarrow>
   find_msg j (mutate_found i f ms) = find_msg j ms"
  by (induction ms) auto

lemma set_mutate_found: "set (mutate_found i f ms) \<subseteq> set ms \<union> f ` set ms"
  by (induction ms) auto

lemma m_id_react [simp]: "m_id (react e m) = m_id m"
  by (simp add: react_def)

lemma m_id_see [simp]: "m_id (see n m) = m_id m"
  by (simp add: see_def)

subsection \<open>The bounded log\<close>

lemma length_push_capped: "length ms \<le> 200 \<Longrightarrow> length (push_capped ms m) \<le> 200"
  by (simp add: push_capped_def Let_def)

lemma push_capped_below: "length ms < 200 \<Longrightarrow> push_capped ms m = ms @ [m]"
  by (simp add: push_capped_def Let_def)

lemma push_capped_full: "200 \<le> length ms \<Longrightarrow> push_capped ms m = tl ms @ [m]"
  by (cases ms) (simp_all add: push_capped_def Let_def)

lemma push_capped_last200: "push_capped (last200 ms) m = last200 (ms @ [m])"
proof (cases "length ms < 200")
  case True
  then show ?thesis by (simp add: last200_def push_capped_def Let_def)
next
  case False
  then have len: "200 \<le> length ms" by simp
  then have "length (last200 ms) = 200" by (simp add: last200_def)
  then have "push_capped (last200 ms) m = tl (last200 ms) @ [m]"
    by (simp add: push_capped_full)
  also have "tl (last200 ms) = drop (Suc (length ms - 200)) ms"
    by (simp add: last200_def drop_Suc tl_drop)
  also have "\<dots> @ [m] = last200 (ms @ [m])"
  proof -
    have "Suc (length ms - 200) = length (ms @ [m]) - 200"
      using len by simp
    then show ?thesis
      using len by (simp only: last200_def drop_append) simp
  qed
  finally show ?thesis .
qed

lemma alice_bob_users:
  "users alice_bob =
     [(js ''c1'', \<lparr>u_username = js ''alice'', u_room = js ''General'', u_id = js ''c1''\<rparr>),
      (js ''c2'', \<lparr>u_username = js ''bob'', u_room = js ''General'', u_id = js ''c2''\<rparr>)]"
  and alice_bob_messages: "messages alice_bob = []"
  and alice_bob_typing: "typingUsers alice_bob = []"
  by (simp_all add: alice_bob_def alice_joins_def bob_joins_def init_def user_join_def Let_def)

section \<open>Message ids\<close>

lemma send_message_id:
  assumes "map_of (users s) sid = Some u"
  shows "\<exists>m. snd (send_message s sid clk d) = [(Room (u_room u), Emit_receive_message m)]
           \<and> m_id m = now clk
           \<and> messages (fst (send_message s sid clk d)) = push_capped (messages s) m"
  using assms by (simp add: send_message_def Let_def)

text \<open>
  C2. Two sends handled at the same reading of \<^verbatim>\<open>Date.now()\<close>, here one by alice and
  one by bob, store two messages with the same id.
\<close>

theorem same_tick_same_id:
  "map m_id (messages (fst (run alice_bob
       [(js ''c1'', tick 5, On_send_message (text_only ''hi'')),
        (js ''c2'', tick 5, On_send_message (text_only ''hello''))])))
   = [1751371200005, 1751371200005]"
  by (simp add: alice_bob_users alice_bob_messages send_message_def push_capped_def Let_def
      tick_def)

section \<open>Sends without content\<close>

text \<open>
  C3, as stated, fails. The input box is empty, a file is chosen and its upload throws:
  the client still emits a send, with empty text and empty image, and for alice, who has
  joined, the server stores it and broadcasts it.
\<close>

theorem empty_send_is_stored:
  "snd (handleSend \<lparr>c_input = [], c_file = Some (js ''cat.png''), c_selectedUser = None\<rparr>
          Upload_throws)
     = [On_send_message \<lparr>d_text = Some [], d_message = None, d_image = Some [], d_to = None\<rparr>,
        On_typing False]
   \<and> length (messages (fst (step alice_bob (js ''c1'', tick 5, On_send_message
        \<lparr>d_text = Some [], d_message = None, d_image = Some [], d_to = None\<rparr>)))) = 1
   \<and> snd (step alice_bob (js ''c1'', tick 5, On_send_message
        \<lparr>d_text = Some [], d_message = None, d_image = Some [], d_to = None\<rparr>)) \<noteq> []"
  by (simp add: handleSend_def messagePayload_def imageUrl_def trim_def
      alice_bob_users alice_bob_messages send_message_def push_capped_def Let_def)

lemma length_push_capped_eq:
  "length (push_capped ms m) = (if length ms < 200 then Suc (length ms) else length ms)"
  by (simp add: push_capped_def Let_def)

text \<open>
  C3, amended. The server does not validate a send: on a joined connection a payload
  whose text and image are both empty or absent is stored as a message with text
  \<^verbatim>\<open>''\<close> and image \<^verbatim>\<open>''\<close> (the oldest entry leaving when that makes 201) and is
  broadcast to the sender's room. The check for an empty send is the client's:
  \<open>handleSend\<close> emits nothing when the trimmed input is empty and no file is chosen.
\<close>

theorem send_message_no_validation:
  assumes "map_of (users s) sid = Some u"
    and "or_empty (d_text d) = []" and "or_empty (d_image d) = []"
  shows "send_message s sid clk d =
           (s\<lparr>messages := push_capped (messages s)
                 \<lparr>m_id = now clk, m_sender = u_username u, m_senderId = sid, m_room = u_room u,
                  m_timestamp = iso clk, m_text = [], m_image = [],
                  m_reactions = Map.empty, m_seenBy = [u_username u]\<rparr>\<rparr>,
            [(Room (u_room u), Emit_receive_message
                 \<lparr>m_id = now clk, m_sender = u_username u, m_senderId = sid, m_room = u_room u,
                  m_timestamp = iso clk, m_text = [], m_image = [],
                  m_reactions = Map.empty, m_seenBy = [u_username u]\<rparr>)])
         \<and> length (messages (fst (send_message s sid clk d)))
             = (if length (messages s) < 200 then Suc (length (messages s))
                else length (messages s))
         \<and> (trim (c_input c) = [] \<and> c_file c = None \<longrightarrow> handleSend c up = (c, []))"
  using assms by (simp add: send_message_def Let_def length_push_capped_eq handleSend_def)

theorem send_message_no_validation_witness:
  "length (messages (fst (send_message alice_bob (js ''c1'') (tick 5) nothing))) = 1
   \<and> handleSend \<lparr>c_input = js ''  '', c_file = None, c_selectedUser = None\<rparr> Upload_throws
       = (\<lparr>c_input = js ''  '', c_file = None, c_selectedUser = None\<rparr>, [])"
proof -
  have u: "map_of (users alice_bob) (js ''c1'')
             = Some \<lparr>u_username = js ''alice'', u_room = js ''General'', u_id = js ''c1''\<rparr>"
    by (simp add: alice_bob_users)
  have t: "trim (c_input \<lparr>c_input = js ''  '', c_file = None, c_selectedUser = None\<rparr>) = []
           \<and> c_file \<lparr>c_input = js ''  '', c_file = None, c_selectedUser = None\<rparr> = None"
    by (simp add: trim_def js_def white_space_def)
  have e: "or_empty (d_text nothing) = []" "or_empty (d_image nothing) = []"
    by (simp_all add: nothing_def)
  show ?thesis
    using send_message_no_validation [OF u e, of "tick 5"
        "\<lparr>c_input = js ''  '', c_file = None, c_selectedUser = None\<rparr>" Upload_throws] t
    by (simp add: alice_bob_messages length_push_capped_eq)
qed

section \<open>Events on a connection that has not joined\<close>

text \<open>
  C1, as stated, fails: a private message arriving on a connection that never joined is
  still routed.
\<close>

theorem private_message_from_unjoined:
  "snd (step init (js ''c9'', tick 5, On_private_message
          \<lparr>d_text = None, d_message = Some (js ''psst''), d_image = None, d_to = Some (js ''c1'')\<rparr>))
   = [(Others_in (Some (js ''c1'')) (js ''c9''), Emit_private_message
        \<lparr>p_id = now (tick 5), p_sender = js ''Anonymous'', p_senderId = js ''c9'',
         p_message = Some (js ''psst''), p_image = None, p_isPrivate = True,
         p_timestamp = iso (tick 5)\<rparr>),
      (Socket (js ''c9''), Emit_private_message
        \<lparr>p_id = now (tick 5), p_sender = js ''Anonymous'', p_senderId = js ''c9'',
         p_message = Some (js ''psst''), p_image = None, p_isPrivate = True,
         p_timestamp = iso (tick 5)\<rparr>)]"
  by (simp add: init_def private_message_def sender_name_def Let_def)

text \<open>
  C1, amended. On a connection that has not joined, \<^verbatim>\<open>send_message\<close>, \<^verbatim>\<open>typing\<close>,
  \<^verbatim>\<open>message_seen\<close> and \<^verbatim>\<open>disconnect\<close> change nothing and emit nothing. A
  \<^verbatim>\<open>private_message\<close> changes no store but is routed all the same, under the sender name
  \<^verbatim>\<open>Anonymous\<close>: to the addressee and back to the sending socket. A
  \<^verbatim>\<open>message_reaction\<close> does not look the connection up: it is dropped only when no
  stored message has the id, and otherwise is applied and broadcast to the message's room.
\<close>

theorem unjoined_events:
  assumes "map_of (users s) sid = None"
  shows "step s (sid, clk, On_send_message d) = (s, [])
       \<and> step s (sid, clk, On_typing b) = (s, [])
       \<and> step s (sid, clk, On_message_seen i) = (s, [])
       \<and> step s (sid, clk, On_disconnect) = (s, [])
       \<and> step s (sid, clk, On_private_message d) =
            (s, [(Others_in (d_to d) sid, Emit_private_message
                   \<lparr>p_id = now clk, p_sender = js ''Anonymous'', p_senderId = sid,
                    p_message = d_message d, p_image = d_image d, p_isPrivate = True,
                    p_timestamp = iso clk\<rparr>),
                 (Socket sid, Emit_private_message
                   \<lparr>p_id = now clk, p_sender = js ''Anonymous'', p_senderId = sid,
                    p_message = d_message d, p_image = d_image d, p_isPrivate = True,
                    p_timestamp = iso clk\<rparr>)])
       \<and> (find_msg i (messages s) = None \<longrightarrow>
            step s (sid, clk, On_message_reaction i e) = (s, []))
       \<and> (\<forall>m. find_msg i (messages s) = Some m \<longrightarrow>
            step s (sid, clk, On_message_reaction i e) =
              (s\<lparr>messages := mutate_found i (react e) (messages s)\<rparr>,
               [(Room (m_room m), Emit_receive_message (react e m))]))"
  using assms
  by (simp add: send_message_def typing_def message_seen_def disconnect_def
      private_message_def sender_name_def message_reaction_def Let_def)

theorem unjoined_events_witness:
  "step alice_bob (js ''c9'', tick 7, On_send_message (text_only ''hi'')) = (alice_bob, [])
   \<and> step alice_bob (js ''c9'', tick 7, On_disconnect) = (alice_bob, [])
   \<and> step alice_bob (js ''c9'', tick 7, On_message_reaction 3 thumbs_up) = (alice_bob, [])"
proof -
  have u: "map_of (users alice_bob) (js ''c9'') = None"
    by (simp add: alice_bob_users)
  have f: "find_msg 3 (messages alice_bob) = None"
    by (simp add: alice_bob_messages)
  show ?thesis
    using unjoined_events [OF u, of "tick 7" "text_only ''hi''" False 3 thumbs_up] f
    by simp
qed

section \<open>Runs\<close>

lemma fst_run_Cons: "fst (run s (i # xs)) = fst (run (fst (step s i)) xs)"
  by (simp split: prod.splits)

lemma run_invariant:
  assumes "P s" and "\<And>t i. P t \<Longrightarrow> P (fst (step t i))"
  shows "P (fst (run s evs))"
  using assms(1)
proof (induction evs arbitrary: s)
  case Nil
  then show ?case by simp
next
  case (Cons i evs)
  have "P (fst (step s i))" using Cons.prems by (rule assms(2))
  then have "P (fst (run (fst (step s i)) evs))" by (rule Cons.IH)
  then show ?case by (simp only: fst_run_Cons)
qed

section \<open>The registry\<close>

lemma set_update_subset: "set (AList.update k v al) \<subseteq> insert (k, v) (set al)"
  by (induction al) auto

lemma filter_update_key:
  "distinct (map fst al) \<Longrightarrow> filter (\<lambda>(k', _). k' = k) (AList.update k v al) = [(k, v)]"
proof (induction al)
  case Nil
  then show ?case by simp
next
  case (Cons p al)
  obtain k' v' where p: "p = (k', v')" by (cases p)
  show ?case
  proof (cases "k' = k")
    case True
    have "filter (\<lambda>(k', _). k' = k) al = []"
      using Cons.prems p True by (force simp: filter_empty_conv)
    with p True show ?thesis by simp
  next
    case False
    with Cons p show ?thesis by simp
  qed
qed

lemma users_step:
  "users (fst (step s (sid, clk, e))) =
     (case e of
        On_user_join n r \<Rightarrow>
          AList.update sid \<lparr>u_username = n, u_room = r, u_id = sid\<rparr> (users s)
      | On_disconnect \<Rightarrow> AList.delete sid (users s)
      | _ \<Rightarrow> users s)"
  by (cases e)
     (simp_all add: user_join_def send_message_def private_message_def typing_def
        message_reaction_def disconnect_def message_seen_def Let_def map_of_eq_None_iff
        split: option.splits)

lemma registry_ok_update:
  assumes "registry_ok s"
  shows "registry_ok (s\<lparr>users := AList.update sid \<lparr>u_username = n, u_room = r, u_id = sid\<rparr> (users s)\<rparr>)"
proof -
  have "distinct (map fst (AList.update sid \<lparr>u_username = n, u_room = r, u_id = sid\<rparr> (users s)))"
    using assms by (simp add: registry_ok_def distinct_update)
  moreover have "\<forall>(k, u) \<in> set (AList.update sid \<lparr>u_username = n, u_room = r, u_id = sid\<rparr> (users s)). u_id u = k"
    using assms set_update_subset [of sid "\<lparr>u_username = n, u_room = r, u_id = sid\<rparr>" "users s"]
    by (auto simp: registry_ok_def)
  ultimately show ?thesis by (simp add: registry_ok_def)
qed

lemma registry_ok_delete:
  assumes "registry_ok s"
  shows "distinct (map fst (AList.delete sid (users s)))
       \<and> (\<forall>(k, u) \<in> set (AList.delete sid (users s)). u_id u = k)"
proof -
  have "distinct (map fst (AList.delete sid (users s)))"
    using assms by (simp add: registry_ok_def distinct_delete)
  moreover have "\<forall>(k, u) \<in> set (AList.delete sid (users s)). u_id u = k"
    using assms by (auto simp: registry_ok_def AList.delete_eq)
  ultimately show ?thesis by simp
qed

lemma registry_ok_step: "registry_ok s \<Longrightarrow> registry_ok (fst (step s i))"
proof -
  assume ok: "registry_ok s"
  obtain sid clk e where i: "i = (sid, clk, e)" by (cases i)
  show ?thesis
  proof (cases e)
    case (On_user_join n r)
    then show ?thesis
      using registry_ok_update [OF ok, of sid n r] i
      by (simp add: registry_ok_def user_join_def Let_def)
  next
    case On_disconnect
    then have "users (fst (step s i)) = AList.delete sid (users s)"
      using i users_step [of s sid clk e] by simp
    then show ?thesis
      using registry_ok_delete [OF ok, of sid] by (simp add: registry_ok_def)
  next
    case (On_send_message d)
    then have "users (fst (step s i)) = users s"
      using i users_step [of s sid clk e] by simp
    then show ?thesis using ok by (simp add: registry_ok_def)
  next
    case (On_private_message d)
    then have "users (fst (step s i)) = users s"
      using i users_step [of s sid clk e] by simp
    then show ?thesis using ok by (simp add: registry_ok_def)
  next
    case (On_typing b)
    then have "users (fst (step s i)) = users s"
      using i users_step [of s sid clk e] by simp
    then show ?thesis using ok by (simp add: registry_ok_def)
  next
    case (On_message_reaction j em)
    then have "users (fst (step s i)) = users s"
      using i users_step [of s sid clk e] by simp
    then show ?thesis using ok by (simp add: registry_ok_def)
  next
    case (On_message_seen j)
    then have "users (fst (step s i)) = users s"
      using i users_step [of s sid clk e] by simp
    then show ?thesis using ok by (simp add: registry_ok_def)
  qed
qed

lemma registry_ok_run: "registry_ok (fst (run init evs))"
proof (rule run_invariant)
  show "registry_ok init" by (simp add: registry_ok_def init_def)
qed (rule registry_ok_step)

lemma roomUsers_ids_distinct: "registry_ok s \<Longrightarrow> distinct (map u_id (roomUsers s r))"
proof -
  assume ok: "registry_ok s"
  have "map (u_id \<circ> snd) (users s) = map fst (users s)"
    using ok by (auto simp: registry_ok_def)
  then have "distinct (map (u_id \<circ> snd) (users s))"
    using ok by (simp only: registry_ok_def)
  then have "distinct (map u_id (map snd (users s)))"
    by (simp only: map_map)
  then show ?thesis
    unfolding roomUsers_def by (rule distinct_map_filter)
qed

lemma filter_values_by_key:
  "\<forall>(k, u) \<in> set al. u_id u = k \<Longrightarrow>
   filter (\<lambda>u. u_id u = sid) (map snd al) = map snd (filter (\<lambda>(k, _). k = sid) al)"
  by (induction al) auto

lemma roomUsers_of_key:
  assumes "registry_ok s"
  shows "filter (\<lambda>u. u_id u = sid) (roomUsers s r)
         = filter (\<lambda>u. u_room u = r) (map snd (filter (\<lambda>(k, _). k = sid) (users s)))"
proof -
  have "filter (\<lambda>u. u_id u = sid) (roomUsers s r)
        = filter (\<lambda>u. u_room u = r) (filter (\<lambda>u. u_id u = sid) (map snd (users s)))"
    by (simp add: roomUsers_def conj_commute)
  also have "filter (\<lambda>u. u_id u = sid) (map snd (users s))
             = map snd (filter (\<lambda>(k, _). k = sid) (users s))"
    using assms by (intro filter_values_by_key) (simp add: registry_ok_def)
  finally show ?thesis .
qed

section \<open>Joining again\<close>

lemma user_join_registers:
  assumes "registry_ok s"
  shows "filter (\<lambda>(k, _). k = sid) (users (fst (user_join s sid n r)))
         = [(sid, \<lparr>u_username = n, u_room = r, u_id = sid\<rparr>)]"
  using assms by (simp add: user_join_def Let_def registry_ok_def filter_update_key)

text \<open>
  C8. After any history in which a connection joins and later joins again (with any
  names and rooms, and any events before and in between), the registry holds exactly
  one participant under that connection id, with the name and room of the latest join;
  no room's listing shows a connection twice; the connection is listed once in the
  latest room and in no other; and the second join ends normally, with its two
  emissions.
\<close>

theorem join_overwrites:
  "(case run init (before @ [(sid, clk1, On_user_join n1 r1)] @ between) of
      (s, out) \<Rightarrow>
        (case step s (sid, clk2, On_user_join n2 r2) of
           (s', out') \<Rightarrow>
             filter (\<lambda>(k, _). k = sid) (users s')
               = [(sid, \<lparr>u_username = n2, u_room = r2, u_id = sid\<rparr>)]
             \<and> map_of (users s') sid = Some \<lparr>u_username = n2, u_room = r2, u_id = sid\<rparr>
             \<and> (\<forall>r. distinct (map u_id (roomUsers s' r)))
             \<and> (\<forall>r. filter (\<lambda>u. u_id u = sid) (roomUsers s' r)
                     = (if r = r2 then [\<lparr>u_username = n2, u_room = r2, u_id = sid\<rparr>] else []))
             \<and> out' = [(Room r2, Emit_user_list (roomUsers s' r2)),
                        (Room r2, Emit_user_joined n2 sid)]))"
proof -
  obtain s out where r: "run init (before @ [(sid, clk1, On_user_join n1 r1)] @ between) = (s, out)"
    by (cases "run init (before @ [(sid, clk1, On_user_join n1 r1)] @ between)")
  obtain s' out' where st: "step s (sid, clk2, On_user_join n2 r2) = (s', out')"
    by (cases "step s (sid, clk2, On_user_join n2 r2)")
  have s': "s' = fst (user_join s sid n2 r2)" and out': "out' = snd (user_join s sid n2 r2)"
    using st by simp_all
  have ok: "registry_ok s"
    using registry_ok_run [of "before @ [(sid, clk1, On_user_join n1 r1)] @ between"] r by simp
  have ok': "registry_ok s'"
    using registry_ok_step [OF ok, of "(sid, clk2, On_user_join n2 r2)"] st by simp
  have one: "filter (\<lambda>(k, _). k = sid) (users s')
             = [(sid, \<lparr>u_username = n2, u_room = r2, u_id = sid\<rparr>)]"
    unfolding s' using ok by (rule user_join_registers)
  have look: "map_of (users s') sid = Some \<lparr>u_username = n2, u_room = r2, u_id = sid\<rparr>"
    by (simp add: s' user_join_def Let_def update_conv')
  have listed: "filter (\<lambda>u. u_id u = sid) (roomUsers s' r)
                = (if r = r2 then [\<lparr>u_username = n2, u_room = r2, u_id = sid\<rparr>] else [])" for r
    by (simp add: roomUsers_of_key [OF ok'] one)
  have out: "out' = [(Room r2, Emit_user_list (roomUsers s' r2)), (Room r2, Emit_user_joined n2 sid)]"
    by (simp add: s' out' user_join_def Let_def)
  have "(\<forall>r. distinct (map u_id (roomUsers s' r)))"
    using roomUsers_ids_distinct [OF ok'] by simp
  with one look listed out show ?thesis
    by (simp only: r st prod.case) simp
qed

theorem join_overwrites_witness:
  "users (fst (run init
      [(js ''c1'', tick 0, On_user_join (js ''alice'') (js ''General'')),
       (js ''c2'', tick 1, On_user_join (js ''bob'') (js ''General'')),
       (js ''c1'', tick 2, On_user_join (js ''alice2'') (js ''Random''))]))
   = [(js ''c1'', \<lparr>u_username = js ''alice2'', u_room = js ''Random'', u_id = js ''c1''\<rparr>),
      (js ''c2'', \<lparr>u_username = js ''bob'', u_room = js ''General'', u_id = js ''c2''\<rparr>)]
   \<and> filter (\<lambda>(k, _). k = js ''c1'') (users (fst (run init
      [(js ''c1'', tick 0, On_user_join (js ''alice'') (js ''General'')),
       (js ''c2'', tick 1, On_user_join (js ''bob'') (js ''General'')),
       (js ''c1'', tick 2, On_user_join (js ''alice2'') (js ''Random''))])))
   = [(js ''c1'', \<lparr>u_username = js ''alice2'', u_room = js ''Random'', u_id = js ''c1''\<rparr>)]"
  using join_overwrites [where before = "[]" and sid = "js ''c1''" and ?clk1.0 = "tick 0"
      and ?n1.0 = "js ''alice''" and ?r1.0 = "js ''General''"
      and between = "[(js ''c2'', tick 1, On_user_join (js ''bob'') (js ''General''))]"
      and ?clk2.0 = "tick 2" and ?n2.0 = "js ''alice2''" and ?r2.0 = "js ''Random''"]
  by (simp add: init_def user_join_def Let_def)

section \<open>Disconnecting\<close>

text \<open>
  C7. In any state the engine can reach: when a joined connection disconnects, no
  registry entry and no typing entry is left under its id, no room's participant listing
  shows it, the other stores are untouched, and the emissions are exactly the user list
  of the former room followed by one \<^verbatim>\<open>user_left\<close> to that room; when the connection
  has not joined, the state is unchanged and nothing is emitted.
\<close>

theorem disconnect_cleans_up:
  "(case step (fst (run init evs)) (sid, clk, On_disconnect) of
      (s', out) \<Rightarrow>
        (case map_of (users (fst (run init evs))) sid of
           Some u \<Rightarrow>
             sid \<notin> fst ` set (users s')
             \<and> sid \<notin> fst ` set (typingUsers s')
             \<and> (\<forall>r. sid \<notin> u_id ` set (roomUsers s' r))
             \<and> (\<forall>r. roomTyping (users s') (typingUsers s') r
                     = roomTyping (users (fst (run init evs)))
                         (AList.delete sid (typingUsers (fst (run init evs)))) r)
             \<and> messages s' = messages (fst (run init evs))
             \<and> out = [(Room (u_room u), Emit_user_list (roomUsers s' (u_room u))),
                       (Room (u_room u), Emit_user_left (u_username u))]
             \<and> length (filter (\<lambda>(a, e). e = Emit_user_left (u_username u)) out) = 1
         | None \<Rightarrow> s' = fst (run init evs) \<and> out = []))"
proof -
  define s where "s = fst (run init evs)"
  have ok: "registry_ok s"
    unfolding s_def by (rule registry_ok_run)
  show ?thesis
  proof (cases "map_of (users s) sid")
    case None
    then show ?thesis
      by (simp add: s_def [symmetric] disconnect_def)
  next
    case (Some u)
    define s' where "s' = fst (disconnect s sid)"
    have ok': "registry_ok s'"
      using registry_ok_step [OF ok, of "(sid, clk, On_disconnect)"] by (simp add: s'_def)
    have us: "users s' = AList.delete sid (users s)"
      and ts: "typingUsers s' = AList.delete sid (typingUsers s)"
      and ms: "messages s' = messages s"
      using Some by (simp_all add: s'_def disconnect_def Let_def)
    have gone: "sid \<notin> fst ` set (users s')" "sid \<notin> fst ` set (typingUsers s')"
      by (simp_all add: us ts delete_notin_dom)
    have "map u_id (map snd (users s')) = map fst (users s')"
      using ok' by (auto simp: registry_ok_def)
    then have "u_id ` set (map snd (users s')) = fst ` set (users s')"
      by (metis list.set_map)
    then have unlisted: "sid \<notin> u_id ` set (roomUsers s' r)" for r
      using gone(1) by (auto simp: roomUsers_def)
    have same: "roomTyping (users s') (typingUsers s') r
                = roomTyping (users s) (AList.delete sid (typingUsers s)) r" for r
    proof -
      have "filter (\<lambda>(i, _). case map_of (AList.delete sid (users s)) i of
                                  None \<Rightarrow> False | Some u \<Rightarrow> u_room u = r)
              (AList.delete sid (typingUsers s))
            = filter (\<lambda>(i, _). case map_of (users s) i of
                                  None \<Rightarrow> False | Some u \<Rightarrow> u_room u = r)
              (AList.delete sid (typingUsers s))"
      proof (rule filter_cong [OF refl])
        fix x
        assume "x \<in> set (AList.delete sid (typingUsers s))"
        then have "fst x \<noteq> sid"
          using delete_notin_dom [of sid "typingUsers s"] by force
        then show "(case x of (i, _) \<Rightarrow> (case map_of (AList.delete sid (users s)) i of
                                  None \<Rightarrow> False | Some u \<Rightarrow> u_room u = r))
                 = (case x of (i, _) \<Rightarrow> (case map_of (users s) i of
                                  None \<Rightarrow> False | Some u \<Rightarrow> u_room u = r))"
          by (cases x) simp
      qed
      then show ?thesis by (simp add: roomTyping_def us ts)
    qed
    have out: "disconnect s sid =
                 (s', [(Room (u_room u), Emit_user_list (roomUsers s' (u_room u))),
                       (Room (u_room u), Emit_user_left (u_username u))])"
      using Some by (simp add: s'_def disconnect_def Let_def)
    show ?thesis
      using Some gone unlisted same ms out
      by (simp add: s_def [symmetric])
  qed
qed

theorem disconnect_cleans_up_witness:
  "users (fst (step alice_bob (js ''c1'', tick 9, On_disconnect)))
     = [(js ''c2'', \<lparr>u_username = js ''bob'', u_room = js ''General'', u_id = js ''c2''\<rparr>)]
   \<and> snd (step alice_bob (js ''c1'', tick 9, On_disconnect))
     = [(Room (js ''General''), Emit_user_list
          [\<lparr>u_username = js ''bob'', u_room = js ''General'', u_id = js ''c2''\<rparr>]),
        (Room (js ''General''), Emit_user_left (js ''alice''))]
   \<and> step alice_bob (js ''c9'', tick 9, On_disconnect) = (alice_bob, [])"
proof -
  have a: "map_of (users alice_bob) (js ''c1'')
           = Some \<lparr>u_username = js ''alice'', u_room = js ''General'', u_id = js ''c1''\<rparr>"
    and b: "map_of (users alice_bob) (js ''c9'') = None"
    by (simp_all add: alice_bob_users)
  show ?thesis
    using disconnect_cleans_up [of "[alice_joins, bob_joins]" "js ''c1''" "tick 9"]
      disconnect_cleans_up [of "[alice_joins, bob_joins]" "js ''c9''" "tick 9"] a b
    unfolding alice_bob_def [symmetric]
    by (simp add: alice_bob_users roomUsers_def AList.delete_eq disconnect_def Let_def
        split: prod.splits)
qed

lemma send_message_joined:
  "map_of (users s) sid = Some u \<Longrightarrow>
   send_message s sid clk d =
     (s\<lparr>messages := push_capped (messages s) (sent u sid clk d)\<rparr>,
      [(Room (u_room u), Emit_receive_message (sent u sid clk d))])"
  by (simp add: send_message_def sent_def Let_def)

lemma send_message_unjoined:
  "map_of (users s) sid = None \<Longrightarrow> send_message s sid clk d = (s, [])"
  by (simp add: send_message_def)


section \<open>The body of a private message\<close>

text \<open>
  C9. The \<^verbatim>\<open>private_message\<close> handler takes the body from the payload's field
  \<^verbatim>\<open>message\<close> and from nowhere else: what it emits does not depend on the field
  \<^verbatim>\<open>text\<close>. The payload that \<open>handleSend\<close> emits for a private chat carries the
  typed input under \<^verbatim>\<open>text\<close> and has no \<^verbatim>\<open>message\<close>, so both private messages
  the server emits for it (to the addressee, and the echo) have an undefined body.
\<close>

theorem private_message_body:
  "private_message s sid clk (d\<lparr>d_text := t\<rparr>) = private_message s sid clk d
   \<and> (\<forall>a e. (a, e) \<in> set (snd (private_message s sid clk d)) \<longrightarrow>
         (\<exists>m. e = Emit_private_message m \<and> p_message m = d_message d))
   \<and> map fst (snd (private_message s sid clk d)) = [Others_in (d_to d) sid, Socket sid]
   \<and> (\<forall>u d'. c_selectedUser c = Some u \<and> On_private_message d' \<in> set (snd (handleSend c up)) \<longrightarrow>
         d_text d' = Some (c_input c) \<and> d_message d' = None \<and> d_to d' = Some (u_id u)
         \<and> (\<forall>a e. (a, e) \<in> set (snd (private_message s sid clk d')) \<longrightarrow>
               (\<exists>m. e = Emit_private_message m \<and> p_message m = None)))"
  by (auto simp: private_message_def Let_def handleSend_def messagePayload_def
      split: if_splits)

theorem private_message_body_witness:
  "snd (handleSend \<lparr>c_input = js ''psst'', c_file = None,
          c_selectedUser = Some \<lparr>u_username = js ''bob'', u_room = js ''General'', u_id = js ''c2''\<rparr>\<rparr>
        Upload_throws)
     = [On_private_message \<lparr>d_text = Some (js ''psst''), d_message = None, d_image = Some [],
          d_to = Some (js ''c2'')\<rparr>, On_typing False]
   \<and> map (\<lambda>(a, e). case e of Emit_private_message m \<Rightarrow> p_message m | _ \<Rightarrow> Some [])
        (snd (private_message alice_bob (js ''c1'') (tick 3)
           \<lparr>d_text = Some (js ''psst''), d_message = None, d_image = Some [],
            d_to = Some (js ''c2'')\<rparr>))
     = [None, None]"
  using private_message_body [where s = alice_bob and sid = "js ''c1''" and clk = "tick 3"
      and d = "\<lparr>d_text = Some (js ''psst''), d_message = None, d_image = Some [], d_to = Some (js ''c2'')\<rparr>"
      and t = None
      and c = "\<lparr>c_input = js ''psst'', c_file = None,
        c_selectedUser = Some \<lparr>u_username = js ''bob'', u_room = js ''General'', u_id = js ''c2''\<rparr>\<rparr>"
      and up = Upload_throws]
  by (simp add: handleSend_def messagePayload_def imageUrl_def trim_def js_def white_space_def
      private_message_def Let_def)

section \<open>One log for all rooms\<close>

text \<open>
  C10. The log is one list for all rooms. When it holds 200 messages (or more), a send
  by a joined connection, whatever its room, stores the new message at the end and drops
  the first entry of the whole log, whatever room that entry belongs to; the entries of
  every other room move up unchanged. Below 200 nothing is dropped.
\<close>

theorem capacity_is_global:
  "map_of (users s) sid = Some u \<longrightarrow>
     m_room (sent u sid clk d) = u_room u
     \<and> snd (send_message s sid clk d) = [(Room (u_room u), Emit_receive_message (sent u sid clk d))]
     \<and> users (fst (send_message s sid clk d)) = users s
     \<and> typingUsers (fst (send_message s sid clk d)) = typingUsers s
     \<and> messages (fst (send_message s sid clk d))
         = (if 200 \<le> length (messages s) then tl (messages s) else messages s)
           @ [sent u sid clk d]"
  by (auto simp: send_message_joined push_capped_full push_capped_below sent_def)

lemma length_hundreds: "length hundreds = 200"
  by (simp add: hundreds_def)

lemma room_hd_hundreds: "m_room (hd hundreds) = js ''General''"
proof -
  have "hd (map (\<lambda>k. \<lparr>m_id = now (tick k), m_sender = js ''alice'', m_senderId = js ''c1'',
       m_room = js ''General'', m_timestamp = iso (tick k), m_text = js ''hi'', m_image = [],
       m_reactions = Map.empty, m_seenBy = [js ''alice'']\<rparr>) [0..<200])
     = (\<lambda>k. \<lparr>m_id = now (tick k), m_sender = js ''alice'', m_senderId = js ''c1'',
       m_room = js ''General'', m_timestamp = iso (tick k), m_text = js ''hi'', m_image = [],
       m_reactions = Map.empty, m_seenBy = [js ''alice'']\<rparr>) (hd [0..<200])"
    by (rule hd_map) simp
  then show ?thesis by (simp only: hundreds_def msg.simps)
qed

theorem capacity_is_global_witness:
  "m_room (hd hundreds) = js ''General''
   \<and> messages (fst (send_message
        \<lparr>users = [(js ''c3'', \<lparr>u_username = js ''carol'', u_room = js ''Random'', u_id = js ''c3''\<rparr>)],
         messages = hundreds, typingUsers = []\<rparr> (js ''c3'') (tick 300) (text_only ''yo'')))
     = tl hundreds @
       [\<lparr>m_id = now (tick 300), m_sender = js ''carol'', m_senderId = js ''c3'',
         m_room = js ''Random'', m_timestamp = iso (tick 300), m_text = js ''yo'', m_image = [],
         m_reactions = Map.empty, m_seenBy = [js ''carol'']\<rparr>]"
proof -
  have u: "map_of (users \<lparr>users = [(js ''c3'', \<lparr>u_username = js ''carol'', u_room = js ''Random'', u_id = js ''c3''\<rparr>)],
         messages = hundreds, typingUsers = []\<rparr>) (js ''c3'')
       = Some \<lparr>u_username = js ''carol'', u_room = js ''Random'', u_id = js ''c3''\<rparr>"
    by simp
  show ?thesis
    using capacity_is_global [of "\<lparr>users = [(js ''c3'', \<lparr>u_username = js ''carol'', u_room = js ''Random'', u_id = js ''c3''\<rparr>)],
         messages = hundreds, typingUsers = []\<rparr>" "js ''c3''"
         "\<lparr>u_username = js ''carol'', u_room = js ''Random'', u_id = js ''c3''\<rparr>"
         "tick 300" "text_only ''yo''"] u
    by (simp add: length_hundreds room_hd_hundreds text_only_def sent_def)
qed

section \<open>Seen receipts\<close>

lemma seen_grows_refl [simp]: "seen_grows m m"
  by (simp add: seen_grows_def)

lemma seen_grows_see [simp]: "seen_grows m (see n m)"
  by (simp add: seen_grows_def see_def)

lemma seen_grows_react [simp]: "seen_grows m (react e m)"
  by (simp add: seen_grows_def react_def)





lemma messages_step:
  "messages (fst (step s (sid, clk, e))) =
     (case e of
        On_send_message d \<Rightarrow>
          (case map_of (users s) sid of
             None \<Rightarrow> messages s
           | Some u \<Rightarrow> push_capped (messages s) (sent u sid clk d))
      | On_message_reaction i em \<Rightarrow> mutate_found i (react em) (messages s)
      | On_message_seen i \<Rightarrow>
          (case map_of (users s) sid of
             None \<Rightarrow> messages s
           | Some u \<Rightarrow>
               (case find_msg i (messages s) of
                  None \<Rightarrow> messages s
                | Some m \<Rightarrow> if u_username u \<in> set (m_seenBy m) then messages s
                            else mutate_found i (see (u_username u)) (messages s)))
      | _ \<Rightarrow> messages s)"
proof (cases e)
  case (On_user_join n r)
  then show ?thesis by (simp add: user_join_def Let_def)
next
  case (On_send_message d)
  then show ?thesis
    by (cases "map_of (users s) sid") (simp_all add: send_message_joined send_message_unjoined)
next
  case (On_private_message d)
  then show ?thesis by (simp add: private_message_def Let_def)
next
  case (On_typing b)
  then show ?thesis
    by (cases "map_of (users s) sid") (simp_all add: typing_def Let_def)
next
  case (On_message_reaction i em)
  then show ?thesis
    by (cases "find_msg i (messages s)") (simp_all add: message_reaction_def mutate_found_absent)
next
  case On_disconnect
  then show ?thesis
    by (cases "map_of (users s) sid") (simp_all add: disconnect_def Let_def)
next
  case (On_message_seen i)
  then show ?thesis
    by (cases "map_of (users s) sid"; cases "find_msg i (messages s)")
       (simp_all add: message_seen_def)
qed




lemma push_capped_subset: "set (push_capped ms n) \<subseteq> insert n (set ms)"
  by (cases ms) (auto simp: push_capped_def Let_def)







section \<open>Reactions\<close>

lemma m_reactions_react:
  "m_reactions (react e m) e' = (if e' = e then reacted e (m_reactions m e) else m_reactions m e')"
  by (simp add: react_def set_reaction_def next_reaction_def reacted_def)

lemma find_msg_reaction:
  "find_msg i (messages (fst (message_reaction s j e)))
   = (if i = j then map_option (react e) (find_msg i (messages s)) else find_msg i (messages s))"
proof (cases "find_msg j (messages s)")
  case None
  then show ?thesis by (auto simp: message_reaction_def)
next
  case (Some m)
  then show ?thesis
    by (simp add: message_reaction_def find_mutate_found_same find_mutate_found_other)
qed

lemma reaction_on_step:
  "reaction_on (messages (fst (message_reaction s j e'))) i e
   = (if j = i \<and> e' = e \<and> find_msg i (messages s) \<noteq> None
      then reacted e (reaction_on (messages s) i e) else reaction_on (messages s) i e)"
  by (cases "find_msg i (messages s)")
     (auto simp: reaction_on_def find_msg_reaction m_reactions_react)

lemma found_after_reaction:
  "find_msg i (messages (fst (message_reaction s j e))) = None \<longleftrightarrow> find_msg i (messages s) = None"
  by (simp add: find_msg_reaction)

lemma reaction_on_run:
  assumes "\<forall>x \<in> set evs. reaction_of x \<noteq> None"
  shows "reaction_on (messages (fst (run s evs))) i e
         = (if find_msg i (messages s) = None then None
            else (reacted e ^^ reactions_with i e evs) (reaction_on (messages s) i e))
       \<and> (find_msg i (messages (fst (run s evs))) = None \<longleftrightarrow> find_msg i (messages s) = None)"
  using assms
proof (induction evs arbitrary: s)
  case Nil
  then show ?case by (simp add: reactions_with_def reaction_on_def)
next
  case (Cons x evs)
  then obtain sid clk j e' where x: "x = (sid, clk, On_message_reaction j e')"
    by (cases x rule: reaction_of.cases) auto
  define s1 where "s1 = fst (message_reaction s j e')"
  have run: "fst (run s (x # evs)) = fst (run s1 evs)"
    by (simp add: x s1_def split: prod.splits)
  have ih: "reaction_on (messages (fst (run s1 evs))) i e
         = (if find_msg i (messages s1) = None then None
            else (reacted e ^^ reactions_with i e evs) (reaction_on (messages s1) i e))
       \<and> (find_msg i (messages (fst (run s1 evs))) = None \<longleftrightarrow> find_msg i (messages s1) = None)"
    using Cons.prems by (intro Cons.IH) simp
  have found: "find_msg i (messages s1) = None \<longleftrightarrow> find_msg i (messages s) = None"
    unfolding s1_def by (rule found_after_reaction)
  have one: "reaction_on (messages s1) i e
      = (if j = i \<and> e' = e \<and> find_msg i (messages s) \<noteq> None
         then reacted e (reaction_on (messages s) i e) else reaction_on (messages s) i e)"
    unfolding s1_def by (rule reaction_on_step)
  have n: "reactions_with i e (x # evs)
           = (if j = i \<and> e' = e then Suc (reactions_with i e evs) else reactions_with i e evs)"
    by (auto simp: reactions_with_def x)
  show ?case
    unfolding run using ih found one n by (simp add: funpow_swap1)
qed

lemma count_of_reacted_once:
  "e \<notin> set object_prototype_names \<Longrightarrow> w \<noteq> Some Text \<Longrightarrow>
   reacted e w \<noteq> Some Text \<and> count_of (reacted e w) = Suc (count_of w)"
  by (cases w rule: count_of.cases) (auto simp: reacted_def object_prototype_names_def)

lemma count_of_reacted:
  "e \<notin> set object_prototype_names \<Longrightarrow> v \<noteq> Some Text \<Longrightarrow>
   (reacted e ^^ n) v \<noteq> Some Text \<and> count_of ((reacted e ^^ n) v) = count_of v + n"
proof (induction n)
  case 0
  then show ?case by simp
next
  case (Suc n)
  then have "(reacted e ^^ n) v \<noteq> Some Text"
    and c: "count_of ((reacted e ^^ n) v) = count_of v + n"
    by simp_all
  then have "reacted e ((reacted e ^^ n) v) \<noteq> Some Text
             \<and> count_of (reacted e ((reacted e ^^ n) v)) = Suc (count_of ((reacted e ^^ n) v))"
    using Suc.prems(1) by (intro count_of_reacted_once)
  then show ?case using c by simp
qed

lemma reactions_with_filter:
  "(i', e') \<noteq> (i, e) \<Longrightarrow>
   reactions_with i' e' (filter (\<lambda>x. reaction_of x \<noteq> Some (i, e)) evs) = reactions_with i' e' evs"
  by (induction evs) (auto simp: reactions_with_def)

lemma mutate_found_frame:
  "list_all2 (\<lambda>m m'. m' = m \<or> (find_msg i ms = Some m \<and> m' = f m)) ms (mutate_found i f ms)"
proof (induction ms)
  case Nil
  then show ?case by simp
next
  case (Cons m ms)
  show ?case
  proof (cases "m_id m = i")
    case True
    then show ?thesis by (simp add: list_all2_refl)
  next
    case False
    with Cons show ?thesis by simp
  qed
qed

lemma message_reaction_frame:
  "users (fst (message_reaction s i e)) = users s
   \<and> typingUsers (fst (message_reaction s i e)) = typingUsers s
   \<and> list_all2 (\<lambda>m m'. m' = m \<or> (find_msg i (messages s) = Some m \<and> m' = react e m))
        (messages s) (messages (fst (message_reaction s i e)))"
proof (cases "find_msg i (messages s)")
  case None
  then show ?thesis by (simp add: message_reaction_def list_all2_refl)
next
  case (Some m)
  then show ?thesis
    using mutate_found_frame [of i "messages s" "react e"] by (simp add: message_reaction_def)
qed

lemma counts_ok_step: "counts_ok s \<Longrightarrow> counts_ok (fst (step s x))"
proof -
  assume ok: "counts_ok s"
  then have all: "\<And>m e. m \<in> set (messages s) \<Longrightarrow> e \<notin> set object_prototype_names \<Longrightarrow>
                    m_reactions m e \<noteq> Some Text"
    by (simp add: counts_ok_def list_all_iff)
  obtain sid clk ev where x: "x = (sid, clk, ev)" by (cases x)
  define ms' where "ms' = messages (fst (step s x))"
  note ms' = messages_step [of s sid clk ev, folded x, folded ms'_def]
  have "m_reactions m e \<noteq> Some Text"
    if m: "m \<in> set ms'" and e: "e \<notin> set object_prototype_names" for m e
  proof (cases "m \<in> set (messages s)")
    case True
    then show ?thesis using e by (rule all)
  next
    case False
    show ?thesis
    proof (cases ev)
      case (On_user_join n r)
      with ms' m False show ?thesis by simp
    next
      case (On_send_message d)
      show ?thesis
      proof (cases "map_of (users s) sid")
        case None
        with ms' On_send_message m False show ?thesis by simp
      next
        case (Some u)
        then have "m = sent u sid clk d"
          using ms' On_send_message m False push_capped_subset [of "messages s" "sent u sid clk d"]
          by auto
        then show ?thesis by (simp add: sent_def)
      qed
    next
      case (On_private_message d)
      with ms' m False show ?thesis by simp
    next
      case (On_typing b)
      with ms' m False show ?thesis by simp
    next
      case (On_message_reaction i em)
      then obtain n where n: "n \<in> set (messages s)" and mn: "m = react em n"
        using ms' m False set_mutate_found [of i "react em" "messages s"] by auto
      have "m_reactions n e \<noteq> Some Text"
        using n e by (rule all)
      then show ?thesis
        using count_of_reacted_once [OF e, of "m_reactions n e"]
        by (auto simp: mn m_reactions_react)
    next
      case On_disconnect
      with ms' m False show ?thesis by simp
    next
      case (On_message_seen i)
      have "ms' = messages s \<or> (\<exists>name. ms' = mutate_found i (see name) (messages s))"
        using ms' On_message_seen by (auto split: option.splits)
      then obtain name where "ms' = mutate_found i (see name) (messages s)"
        using m False by auto
      then have "m \<in> see name ` set (messages s)"
        using m False set_mutate_found [of i "see name" "messages s"] by auto
      then obtain n where "n \<in> set (messages s)" and "m = see name n"
        by auto
      then show ?thesis using all [of n e] e by (simp add: see_def)
    qed
  qed
  then show ?thesis by (simp add: counts_ok_def list_all_iff ms'_def)
qed

lemma counts_ok_run: "counts_ok (fst (run init evs))"
proof (rule run_invariant)
  show "counts_ok init" by (simp add: counts_ok_def init_def)
qed (rule counts_ok_step)

text \<open>
  What holds of the message that lookup returns. Take any state the engine can reach,
  then a run of reaction events only, from any
  connections and with any ids and emojis, and an emoji \<open>e\<close> that is not a property name
  of \<^verbatim>\<open>Object.prototype\<close>. On the message that lookup by id \<open>i\<close> returns, the count
  under \<open>e\<close> is a number before and after, and after the run it is the count before plus
  the number of events of the run that react to \<open>i\<close> with \<open>e\<close>: exactly that number when
  the message had no reaction \<open>e\<close> yet. The value under any other emoji, or on the message
  of any other id, is what it would be had those events not happened. One such event
  changes no store but the log, in the log nothing but the message found, and in that
  message nothing but the value under \<open>e\<close>.
\<close>

lemma reactions_additive:
  assumes "\<forall>x \<in> set evs. reaction_of x \<noteq> None"
    and "e \<notin> set object_prototype_names"
    and "find_msg i (messages (fst (run init before))) = Some m"
  shows "(\<exists>m'. find_msg i (messages (fst (run (fst (run init before)) evs))) = Some m'
            \<and> m_reactions m e \<noteq> Some Text
            \<and> m_reactions m' e \<noteq> Some Text
            \<and> count_of (m_reactions m' e) = count_of (m_reactions m e) + reactions_with i e evs
            \<and> (m_reactions m e = None \<and> 0 < reactions_with i e evs \<longrightarrow>
                 m_reactions m' e = Some (Num (reactions_with i e evs))))
       \<and> (\<forall>i' e'. (i', e') \<noteq> (i, e) \<longrightarrow>
             reaction_on (messages (fst (run (fst (run init before)) evs))) i' e'
             = reaction_on (messages (fst (run (fst (run init before))
                               (filter (\<lambda>x. reaction_of x \<noteq> Some (i, e)) evs)))) i' e')
       \<and> users (fst (message_reaction (fst (run init before)) i e)) = users (fst (run init before))
       \<and> typingUsers (fst (message_reaction (fst (run init before)) i e))
           = typingUsers (fst (run init before))
       \<and> list_all2 (\<lambda>n n'. n' = n
                       \<or> (find_msg i (messages (fst (run init before))) = Some n \<and> n' = react e n))
             (messages (fst (run init before)))
             (messages (fst (message_reaction (fst (run init before)) i e)))
       \<and> (\<forall>n e'. e' \<noteq> e \<longrightarrow> m_reactions (react e n) e' = m_reactions n e')
       \<and> (\<forall>n. (react e n)\<lparr>m_reactions := m_reactions n\<rparr> = n)"
proof -
  define s where "s = fst (run init before)"
  let ?n = "reactions_with i e evs"
  let ?v = "m_reactions m e"
  have m: "find_msg i (messages s) = Some m"
    using assms(3) by (simp only: s_def)
  have "counts_ok s"
    unfolding s_def by (rule counts_ok_run)
  then have v: "?v \<noteq> Some Text"
    using find_msg_Some_id [OF m] assms(2) by (simp add: counts_ok_def list_all_iff)
  have run: "reaction_on (messages (fst (run s evs))) i e = (reacted e ^^ ?n) ?v"
    and found: "find_msg i (messages (fst (run s evs))) \<noteq> None"
    using reaction_on_run [OF assms(1), of s i e] m by (simp_all add: reaction_on_def)
  from found obtain m' where m': "find_msg i (messages (fst (run s evs))) = Some m'"
    by blast
  then have val: "m_reactions m' e = (reacted e ^^ ?n) ?v"
    using run by (simp add: reaction_on_def)
  have num: "m_reactions m' e \<noteq> Some Text"
    and cnt: "count_of (m_reactions m' e) = count_of ?v + ?n"
    using count_of_reacted [OF assms(2) v, of ?n] val by simp_all
  have fresh: "m_reactions m' e = Some (Num ?n)" if v0: "?v = None" and n0: "0 < ?n"
  proof -
    have "m_reactions m' e \<noteq> None"
    proof
      assume none: "m_reactions m' e = None"
      obtain k where k: "?n = Suc k" using n0 by (cases ?n) auto
      have "e \<noteq> js ''__proto__''"
        using assms(2) by (auto simp: object_prototype_names_def)
      then have "reacted e ((reacted e ^^ k) ?v) \<noteq> None"
        by (simp add: reacted_def)
      then show False using none val k by simp
    qed
    then obtain r where r: "m_reactions m' e = Some r" by blast
    with num cnt v0 show ?thesis by (cases r) simp_all
  qed
  have others: "reaction_on (messages (fst (run s evs))) i' e'
      = reaction_on (messages (fst (run s (filter (\<lambda>x. reaction_of x \<noteq> Some (i, e)) evs)))) i' e'"
    if "(i', e') \<noteq> (i, e)" for i' e'
  proof -
    have "\<forall>x \<in> set (filter (\<lambda>x. reaction_of x \<noteq> Some (i, e)) evs). reaction_of x \<noteq> None"
      using assms(1) by simp
    then show ?thesis
      using reaction_on_run [OF assms(1), of s i' e'] reaction_on_run [of _ s i' e']
        reactions_with_filter [OF that, of evs]
      by simp
  qed
  have "\<forall>n e'. e' \<noteq> e \<longrightarrow> m_reactions (react e n) e' = m_reactions n e'"
    by (simp add: m_reactions_react)
  moreover have "\<forall>n. (react e n)\<lparr>m_reactions := m_reactions n\<rparr> = n"
    by (simp add: react_def)
  ultimately show ?thesis
    unfolding s_def [symmetric]
    using m' v num cnt fresh others message_reaction_frame [of s i e] by simp
qed

lemma reactions_additive_witness:
  "reaction_on (messages (fst (run
      (fst (run init [alice_joins, bob_joins,
                      (js ''c1'', tick 1, On_send_message (text_only ''hi''))]))
      [(js ''c2'', tick 2, On_message_reaction (now (tick 1)) thumbs_up),
       (js ''c1'', tick 3, On_message_reaction (now (tick 1)) (js '':)'')),
       (js ''c2'', tick 4, On_message_reaction (now (tick 9)) thumbs_up),
       (js ''c2'', tick 5, On_message_reaction (now (tick 1)) thumbs_up)])))
     (now (tick 1)) thumbs_up
   = Some (Num 2)"
proof -
  define before where "before = [alice_joins, bob_joins,
                      (js ''c1'', tick 1, On_send_message (text_only ''hi''))]"
  define evs where "evs = [(js ''c2'', tick 2, On_message_reaction (now (tick 1)) thumbs_up),
       (js ''c1'', tick 3, On_message_reaction (now (tick 1)) (js '':)'')),
       (js ''c2'', tick 4, On_message_reaction (now (tick 9)) thumbs_up),
       (js ''c2'', tick 5, On_message_reaction (now (tick 1)) thumbs_up)]"
  have 1: "\<forall>x \<in> set evs. reaction_of x \<noteq> None"
    by (simp add: evs_def)
  have 2: "thumbs_up \<notin> set object_prototype_names"
    by (simp add: thumbs_up_def object_prototype_names_def js_def)
  have "fst (run init before)
        = fst (step alice_bob (js ''c1'', tick 1, On_send_message (text_only ''hi'')))"
    by (simp add: before_def alice_bob_def split: prod.splits)
  then have s: "messages (fst (run init before))
           = [sent \<lparr>u_username = js ''alice'', u_room = js ''General'', u_id = js ''c1''\<rparr>
                     (js ''c1'') (tick 1) (text_only ''hi'')]"
    by (simp add: alice_bob_users alice_bob_messages send_message_joined push_capped_below)
  have 3: "find_msg (now (tick 1)) (messages (fst (run init before)))
           = Some (sent \<lparr>u_username = js ''alice'', u_room = js ''General'', u_id = js ''c1''\<rparr>
                     (js ''c1'') (tick 1) (text_only ''hi''))"
    by (simp add: s sent_def)
  have 5: "m_reactions (sent \<lparr>u_username = js ''alice'', u_room = js ''General'', u_id = js ''c1''\<rparr>
                     (js ''c1'') (tick 1) (text_only ''hi'')) thumbs_up = None"
    by (simp add: sent_def)
  have 6: "reactions_with (now (tick 1)) thumbs_up evs = 2"
    by (simp add: reactions_with_def evs_def tick_def thumbs_up_def js_def)
  have "reaction_on (messages (fst (run (fst (run init before)) evs))) (now (tick 1)) thumbs_up
        = Some (Num 2)"
    using reactions_additive [OF 1 2 3] 5 6 by (auto simp: reaction_on_def)
  then show ?thesis by (simp only: before_def evs_def)
qed

text \<open>
  C6, where it fails. Alice and bob send at the same clock reading, so their messages
  share an id. Two reactions then arrive with that id and the thumbs-up emoji, as they do
  when bob's message is clicked twice. Lookup returns alice's message both times: her
  count is 2 and bob's message has none, and each broadcast carries alice's message.
\<close>

theorem reaction_counted_on_other_message:
  "map (\<lambda>m. (m_sender m, m_id m, m_reactions m thumbs_up))
     (messages (fst (run alice_bob
       [(js ''c1'', tick 5, On_send_message (text_only ''hi'')),
        (js ''c2'', tick 5, On_send_message (text_only ''hello'')),
        (js ''c1'', tick 6, On_message_reaction 1751371200005 thumbs_up),
        (js ''c1'', tick 7, On_message_reaction 1751371200005 thumbs_up)])))
   = [(js ''alice'', 1751371200005, Some (Num 2)), (js ''bob'', 1751371200005, None)]
   \<and> map (\<lambda>(a, e). case e of Emit_receive_message m \<Rightarrow> (a, m_sender m) | _ \<Rightarrow> (a, []))
       (snd (run alice_bob
         [(js ''c1'', tick 5, On_send_message (text_only ''hi'')),
          (js ''c2'', tick 5, On_send_message (text_only ''hello'')),
          (js ''c1'', tick 6, On_message_reaction 1751371200005 thumbs_up),
          (js ''c1'', tick 7, On_message_reaction 1751371200005 thumbs_up)]))
     = [(Room (js ''General''), js ''alice''), (Room (js ''General''), js ''bob''),
        (Room (js ''General''), js ''alice''), (Room (js ''General''), js ''alice'')]"
proof -
  have e: "thumbs_up \<notin> set object_prototype_names" "thumbs_up \<noteq> js ''__proto__''"
    by (simp_all add: thumbs_up_def object_prototype_names_def js_def)
  have s: "alice_bob = \<lparr>users = users alice_bob, messages = [], typingUsers = []\<rparr>"
    using alice_bob_messages alice_bob_typing by (cases alice_bob) simp
  show ?thesis
    by (subst (1 2) s)
       (simp add: alice_bob_users send_message_def push_capped_def Let_def tick_def
          message_reaction_def react_def next_reaction_def set_reaction_def e)
qed

section \<open>The bounded log and its ids\<close>

lemma last200_overflow: "length ks = 200 \<Longrightarrow> last200 (map f (k # ks)) = map f ks"
  by (simp add: last200_def)

lemma run_sends:
  assumes "map_of (users s) sid = Some u" and "messages s = last200 xs"
  shows "fst (run s (map (\<lambda>k. (sid, g k, On_send_message d)) ks))
         = s\<lparr>messages := last200 (xs @ map (\<lambda>k. sent u sid (g k) d) ks)\<rparr>"
  using assms
proof (induction ks arbitrary: s xs)
  case Nil
  then show ?case by simp
next
  case (Cons k ks)
  define s1 where "s1 = s\<lparr>messages := push_capped (messages s) (sent u sid (g k) d)\<rparr>"
  have step: "fst (step s (sid, g k, On_send_message d)) = s1"
    using Cons.prems(1) by (simp add: send_message_joined s1_def)
  have "map_of (users s1) sid = Some u"
    using Cons.prems(1) by (simp add: s1_def)
  moreover have "messages s1 = last200 (xs @ [sent u sid (g k) d])"
    using Cons.prems(2) by (simp add: s1_def push_capped_last200)
  ultimately have ih: "fst (run s1 (map (\<lambda>k. (sid, g k, On_send_message d)) ks))
         = s1\<lparr>messages := last200 ((xs @ [sent u sid (g k) d]) @ map (\<lambda>k. sent u sid (g k) d) ks)\<rparr>"
    by (rule Cons.IH)
  have "fst (run s (map (\<lambda>k. (sid, g k, On_send_message d)) (k # ks)))
        = fst (run s1 (map (\<lambda>k. (sid, g k, On_send_message d)) ks))"
    by (simp only: list.map fst_run_Cons step)
  also note ih
  also have "s1\<lparr>messages := last200 ((xs @ [sent u sid (g k) d]) @ map (\<lambda>k. sent u sid (g k) d) ks)\<rparr>
             = s\<lparr>messages := last200 (xs @ map (\<lambda>k. sent u sid (g k) d) (k # ks))\<rparr>"
    by (simp add: s1_def)
  finally show ?case .
qed

lemma log_bounded_step:
  "length (messages s) \<le> 200 \<Longrightarrow> length (messages (fst (step s x))) \<le> 200"
proof -
  assume le: "length (messages s) \<le> 200"
  obtain sid clk e where x: "x = (sid, clk, e)" by (cases x)
  have "length (messages (fst (step s (sid, clk, e)))) \<le> 200"
    using le
    by (cases e)
       (simp_all add: messages_step length_push_capped del: step.simps
          split: option.splits)
  then show ?thesis by (simp only: x)
qed

lemma log_bounded_run: "length (messages (fst (run init evs))) \<le> 200"
proof (rule run_invariant [where P = "\<lambda>s. length (messages s) \<le> 200"])
  show "length (messages init) \<le> 200" by (simp add: init_def)
qed (rule log_bounded_step)

lemma unknown_id_is_dropped:
  "find_msg i (messages s) = None \<Longrightarrow>
   message_reaction s i e = (s, []) \<and> message_seen s sid i = (s, [])"
  by (simp add: message_reaction_def message_seen_def split: option.splits)

lemma eviction_forgets_unshared_id:
  assumes "map_of (users s) sid = Some u" and "length (messages s) = 200"
    and "m_id (hd (messages s)) \<notin> m_id ` set (tl (messages s))"
    and "now clk \<noteq> m_id (hd (messages s))"
  shows "find_msg (m_id (hd (messages s))) (messages (fst (send_message s sid clk d))) = None"
  using assms
  by (simp add: send_message_joined push_capped_full find_msg_None_iff sent_def)

lemma alice_sends201:
  "fst (run alice_bob sends201)
   = alice_bob\<lparr>messages :=
       map (\<lambda>k. sent \<lparr>u_username = js ''alice'', u_room = js ''General'', u_id = js ''c1''\<rparr>
                 (js ''c1'') (tick k) (text_only ''hi'')) [0..<200]\<rparr>"
proof -
  define ks :: "nat list" where "ks = [0..<200]"
  have u: "map_of (users alice_bob) (js ''c1'')
           = Some \<lparr>u_username = js ''alice'', u_room = js ''General'', u_id = js ''c1''\<rparr>"
    by (simp add: alice_bob_users)
  have m: "messages alice_bob = last200 []"
    by (simp add: alice_bob_messages last200_def)
  have len: "length ks = 200" by (simp add: ks_def)
  have "fst (run alice_bob
               (map (\<lambda>k. (js ''c1'', tick k, On_send_message (text_only ''hi''))) (0 # ks)))
        = alice_bob\<lparr>messages := last200 ([] @
            map (\<lambda>k. sent \<lparr>u_username = js ''alice'', u_room = js ''General'', u_id = js ''c1''\<rparr>
                 (js ''c1'') (tick k) (text_only ''hi'')) (0 # ks))\<rparr>"
    using u m by (rule run_sends)
  then have "fst (run alice_bob
               (map (\<lambda>k. (js ''c1'', tick k, On_send_message (text_only ''hi''))) (0 # ks)))
        = alice_bob\<lparr>messages :=
            map (\<lambda>k. sent \<lparr>u_username = js ''alice'', u_room = js ''General'', u_id = js ''c1''\<rparr>
                 (js ''c1'') (tick k) (text_only ''hi'')) ks\<rparr>"
    by (simp only: append_Nil last200_overflow [OF len])
  then show ?thesis by (simp only: sends201_def ks_def)
qed

text \<open>
  C4, the part that fails. After the 201 sends the log holds 200 messages and the first
  message has left it, but its id is also the id of the second message, sent at the same
  clock reading. Lookup by that id finds the second message, so a reaction to the id or
  a seen mark for it (here by bob) is applied and broadcast, not dropped.
\<close>

theorem evicted_id_still_found:
  "length (messages (fst (run alice_bob sends201))) = 200
   \<and> find_msg (now (tick 0)) (messages (fst (run alice_bob sends201)))
       = Some (sent \<lparr>u_username = js ''alice'', u_room = js ''General'', u_id = js ''c1''\<rparr>
                 (js ''c1'') (tick 0) (text_only ''hi''))
   \<and> snd (step (fst (run alice_bob sends201))
            (js ''c2'', tick 500, On_message_reaction (now (tick 0)) thumbs_up))
       = [(Room (js ''General''), Emit_receive_message
            (react thumbs_up
               (sent \<lparr>u_username = js ''alice'', u_room = js ''General'', u_id = js ''c1''\<rparr>
                  (js ''c1'') (tick 0) (text_only ''hi''))))]
   \<and> snd (step (fst (run alice_bob sends201))
            (js ''c2'', tick 500, On_message_seen (now (tick 0))))
       = [(Room (js ''General''),
           Emit_message_seen_update (now (tick 0)) [js ''alice'', js ''bob''])]"
proof -
  define s where "s = fst (run alice_bob sends201)"
  define f where "f = (\<lambda>k. sent \<lparr>u_username = js ''alice'', u_room = js ''General'', u_id = js ''c1''\<rparr>
                 (js ''c1'') (tick k) (text_only ''hi''))"
  define ks :: "nat list" where "ks = [0..<200]"
  have s: "s = alice_bob\<lparr>messages := map f ks\<rparr>"
    unfolding s_def f_def ks_def by (rule alice_sends201)
  have ms: "messages s = map f ks" and us: "users s = users alice_bob"
    by (simp_all add: s)
  have "[0..<200] = 0 # [Suc 0..<200]"
    by (rule upt_conv_Cons) simp
  then have "ks = 0 # [Suc 0..<200]"
    by (simp only: ks_def)
  then have "find_msg (now (tick 0)) (messages s) = Some (f 0)"
    by (simp add: ms f_def sent_def)
  moreover have "length (messages s) = 200"
    by (simp add: ms ks_def)
  moreover have "m_room (f 0) = js ''General''" "m_seenBy (f 0) = [js ''alice'']"
    by (simp_all add: f_def sent_def)
  moreover have "map_of (users s) (js ''c2'')
                 = Some \<lparr>u_username = js ''bob'', u_room = js ''General'', u_id = js ''c2''\<rparr>"
    by (simp add: us alice_bob_users)
  ultimately show ?thesis
    unfolding s_def [symmetric] f_def
    by (simp add: message_reaction_def message_seen_def see_def)
qed

end
